theory Spec2Isabelle
  imports Complex_Main "HOL-Library.Product_Lexorder" "HOL-Library.Multiset"
begin

section \<open>TITAN alpha scanner: the indicator, signal and backtest engine\<close>

text \<open>
  The embedding follows \<^verbatim>\<open>core/titan_math.py\<close>, \<^verbatim>\<open>strategies/alpha_scanner.py\<close> and
  \<^verbatim>\<open>main.py\<close>. A pandas Series is a list, a DataFrame of OHLC bars is a list of records, and
  a missing value produced by \<^verbatim>\<open>shift(1)\<close> is \<open>None\<close>. Prices and indicator values are
  float64 in the source; here they are real numbers, so rounding, overflow and the IEEE
  values inf and NaN are outside the model. Every division of the source is either guarded
  (the DI ratio) or divides by a close price, so on bars with positive closes the model
  divides exactly where the source does. Exceptions are values of type \<open>py_error\<close>.
\<close>

subsection \<open>Data\<close>

datatype py_error = ZeroDivisionError | ValueError | IndexError

record bar =
  High :: real
  Low :: real
  Close :: real

record alpha_stats =
  is_valid :: bool
  alpha :: real
  algo_ret :: real
  buy_hold :: real
  total_trades :: nat
  reason :: "string option"

record sim_state =
  in_position :: bool
  entry_price :: real
  total_return :: real
  trades :: nat

record analysis =
  symbol :: string
  close_price :: real
  res_is_valid :: bool
  res_alpha :: real
  res_algo_ret :: real
  res_buy_hold :: real
  res_total_trades :: nat
  is_buy_signal :: bool
  trend_strength :: string
  res_plus_di :: real
  res_minus_di :: real
  optimal_length :: int
  scan_range :: string

record stability_row =
  row_length :: int
  row_alpha :: real
  row_is_valid :: bool
  row_algo_ret :: real
  row_buy_hold :: real
  row_trades :: nat

text \<open>The initial \<^verbatim>\<open>best_alpha = -float('inf')\<close> of the sweep.\<close>

datatype best_alpha = NegInf | Fin real

fun alpha_gt :: "real \<Rightarrow> best_alpha \<Rightarrow> bool" where
  "alpha_gt a NegInf = True"
| "alpha_gt a (Fin b) = (b < a)"

subsection \<open>Indicator layer\<close>

text \<open>
  \<^verbatim>\<open>series.ewm(alpha=a, adjust=False).mean()\<close>: pandas refuses \<open>a\<close> outside \<open>(0, 1]\<close> with a
  ValueError, and otherwise computes \<open>y\<^sub>0 = x\<^sub>0\<close>, \<open>y\<^sub>t = (1 - a) * y\<^sub>t\<^sub>-\<^sub>1 + a * x\<^sub>t\<close>.
\<close>

fun ewm_from :: "real \<Rightarrow> real \<Rightarrow> real list \<Rightarrow> real list" where
  "ewm_from a y [] = []"
| "ewm_from a y (x # xs) = ((1 - a) * y + a * x) # ewm_from a ((1 - a) * y + a * x) xs"

definition ewm_mean :: "real \<Rightarrow> real list \<Rightarrow> py_error + real list" where
  "ewm_mean a series =
     (if a \<le> 0 \<or> 1 < a then Inl ValueError
      else Inr (case series of [] \<Rightarrow> [] | x # xs \<Rightarrow> x # ewm_from a x xs))"

text \<open>\<^verbatim>\<open>1.0/length\<close> raises ZeroDivisionError when \<open>length\<close> is the integer 0.\<close>

definition rma :: "real list \<Rightarrow> int \<Rightarrow> py_error + real list" where
  "rma series length' =
     (if length' = 0 then Inl ZeroDivisionError
      else ewm_mean (1 / real_of_int length') series)"

definition shift1 :: "'a list \<Rightarrow> 'a option list" where
  "shift1 xs = (if xs = [] then [] else None # map Some (butlast xs))"

text \<open>The row-wise maximum of the three ranges skips the missing ones of the first row.\<close>

fun true_range :: "real \<Rightarrow> real \<Rightarrow> real option \<Rightarrow> real" where
  "true_range h l None = h - l"
| "true_range h l (Some pc) = max (h - l) (max \<bar>h - pc\<bar> \<bar>l - pc\<bar>)"

text \<open>
  \<^verbatim>\<open>np.where((up_move > down_move) & (up_move > 0), up_move, 0)\<close>: a comparison with a
  missing value is false, so the first row gets 0.
\<close>

fun plus_dm_row :: "real \<times> real option \<Rightarrow> real \<times> real option \<Rightarrow> real" where
  "plus_dm_row (h, Some ph) (l, Some pl) =
     (if h - ph > pl - l \<and> h - ph > 0 then h - ph else 0)"
| "plus_dm_row _ _ = 0"

fun minus_dm_row :: "real \<times> real option \<Rightarrow> real \<times> real option \<Rightarrow> real" where
  "minus_dm_row (h, Some ph) (l, Some pl) =
     (if pl - l > h - ph \<and> pl - l > 0 then pl - l else 0)"
| "minus_dm_row _ _ = 0"

text \<open>\<^verbatim>\<open>(smooth / tr_smooth.replace(0, np.nan)) * 100\<close> followed by \<^verbatim>\<open>fillna(0)\<close>.\<close>

definition di_ratio :: "real \<Rightarrow> real \<Rightarrow> real" where
  "di_ratio smooth tr_smooth = (if tr_smooth = 0 then 0 else (smooth / tr_smooth) * 100)"

definition true_ranges :: "bar list \<Rightarrow> real list" where
  "true_ranges df =
     map (\<lambda>(b, pc). true_range (High b) (Low b) pc) (zip df (shift1 (map Close df)))"

definition plus_dms :: "bar list \<Rightarrow> real list" where
  "plus_dms df =
     map (\<lambda>(hs, ls). plus_dm_row hs ls)
       (zip (zip (map High df) (shift1 (map High df))) (zip (map Low df) (shift1 (map Low df))))"

definition minus_dms :: "bar list \<Rightarrow> real list" where
  "minus_dms df =
     map (\<lambda>(hs, ls). minus_dm_row hs ls)
       (zip (zip (map High df) (shift1 (map High df))) (zip (map Low df) (shift1 (map Low df))))"

definition calculate_di :: "bar list \<Rightarrow> int \<Rightarrow> py_error + (real list \<times> real list)" where
  "calculate_di df length' =
     (case rma (true_ranges df) length' of
        Inl e \<Rightarrow> Inl e
      | Inr tr_smooth \<Rightarrow>
          (case rma (plus_dms df) length' of
             Inl e \<Rightarrow> Inl e
           | Inr plus_smooth \<Rightarrow>
               (case rma (minus_dms df) length' of
                  Inl e \<Rightarrow> Inl e
                | Inr minus_smooth \<Rightarrow>
                    Inr (map2 di_ratio plus_smooth tr_smooth,
                         map2 di_ratio minus_smooth tr_smooth))))"

subsection \<open>Signal layer: the impulse state machine\<close>

text \<open>
  One iteration of the loop over \<^verbatim>\<open>range(1, n)\<close>, on the two count arrays. The arrays are
  \<^verbatim>\<open>np.zeros(n)\<close>, float64 holding whole numbers.
\<close>

definition trend_step ::
  "real list \<Rightarrow> real list \<Rightarrow> nat \<Rightarrow> real list \<times> real list \<Rightarrow> real list \<times> real list" where
  "trend_step plus_di minus_di i counts =
     (let positive_count = fst counts; negative_count = snd counts;
          prev_plus = plus_di ! (i - 1); prev_minus = minus_di ! (i - 1);
          curr_plus = plus_di ! i; curr_minus = minus_di ! i
      in if curr_plus > prev_plus \<and> curr_plus > curr_minus then
           (positive_count[i := positive_count ! (i - 1) + 1], negative_count[i := 0])
         else if curr_minus > prev_minus \<and> curr_minus > curr_plus then
           (positive_count[i := 0], negative_count[i := negative_count ! (i - 1) + 1])
         else
           (positive_count[i := positive_count ! (i - 1)],
            negative_count[i := negative_count ! (i - 1)]))"

text \<open>
  Two series of different lengths make the source raise: an IndexError from
  \<^verbatim>\<open>minus_di.iloc[i]\<close> when \<open>minus_di\<close> is the shorter one, a ValueError from
  \<^verbatim>\<open>pd.Series(negative_count, index=minus_di.index)\<close> otherwise.
\<close>

definition calculate_trend_count ::
  "real list \<Rightarrow> real list \<Rightarrow> py_error + (real list \<times> real list)" where
  "calculate_trend_count plus_di minus_di =
     (let n = length plus_di
      in if length minus_di < n \<and> 1 < n then Inl IndexError
         else if length minus_di \<noteq> n then Inl ValueError
         else Inr (fold (trend_step plus_di minus_di) [1..<n] (replicate n 0, replicate n 0)))"

subsection \<open>Backtest\<close>

text \<open>\<^verbatim>\<open>(count == 1) & (count.shift(1) == 0)\<close>; false in the first row, where the shift is missing.\<close>

definition ignition :: "real list \<Rightarrow> bool list" where
  "ignition cnt = map2 (\<lambda>c p. c = 1 \<and> p = Some 0) cnt (shift1 cnt)"

definition sim_init :: sim_state where
  "sim_init = \<lparr>in_position = False, entry_price = 0, total_return = 1, trades = 0\<rparr>"

definition sim_step :: "real list \<Rightarrow> bool list \<Rightarrow> bool list \<Rightarrow> nat \<Rightarrow> sim_state \<Rightarrow> sim_state" where
  "sim_step close entry_signal exit_signal i s =
     (let price = close ! i
      in if \<not> in_position s \<and> entry_signal ! i then
           s\<lparr>in_position := True, entry_price := price\<rparr>
         else if in_position s \<and> exit_signal ! i then
           (let pnl = (price - entry_price s) / entry_price s
            in s\<lparr>total_return := total_return s * (1 + pnl),
                 trades := trades s + 1,
                 in_position := False\<rparr>)
         else s)"

text \<open>The forced close after the loop; the source leaves the flag as it is.\<close>

definition close_open_position :: "real list \<Rightarrow> sim_state \<Rightarrow> sim_state" where
  "close_open_position close s =
     (if in_position s then
        (let price = last close; pnl = (price - entry_price s) / entry_price s
         in s\<lparr>total_return := total_return s * (1 + pnl), trades := trades s + 1\<rparr>)
      else s)"

text \<open>The loop over \<^verbatim>\<open>range(1, len(df))\<close> and the forced close, from a flat start.\<close>

definition simulate_trades :: "real list \<Rightarrow> bool list \<Rightarrow> bool list \<Rightarrow> sim_state" where
  "simulate_trades close entry_signal exit_signal =
     close_open_position close
       (fold (sim_step close entry_signal exit_signal) [1..<length close] sim_init)"

definition insufficient_data :: alpha_stats where
  "insufficient_data =
     \<lparr>is_valid = False, alpha = 0, algo_ret = 0, buy_hold = 0, total_trades = 0,
      reason = Some ''Insufficient data''\<rparr>"

text \<open>
  The part of \<^verbatim>\<open>check_alpha_validity\<close> after the indicators: signals, simulation, returns
  and the two guardrails. It is only reached with at least 50 closes, so the first and the
  last close exist.
\<close>

definition evaluate_trades :: "real list \<Rightarrow> real list \<Rightarrow> real list \<Rightarrow> alpha_stats" where
  "evaluate_trades close pos_count neg_count =
     (let s = simulate_trades close (ignition pos_count) (ignition neg_count);
          algo_return_pct = (total_return s - 1) * 100;
          buy_hold_pct = ((last close - hd close) / hd close) * 100;
          guardrail_1 = (algo_return_pct > 0);
          guardrail_2 = (algo_return_pct > buy_hold_pct)
      in \<lparr>is_valid = (guardrail_1 \<and> guardrail_2),
          alpha = algo_return_pct - buy_hold_pct,
          algo_ret = algo_return_pct,
          buy_hold = buy_hold_pct,
          total_trades = trades s,
          reason = None\<rparr>)"

definition check_alpha_validity :: "bar list \<Rightarrow> int \<Rightarrow> py_error + alpha_stats" where
  "check_alpha_validity df di_length =
     (if length df < 50 then Inr insufficient_data
      else
        (case calculate_di df di_length of
           Inl e \<Rightarrow> Inl e
         | Inr (plus_di, minus_di) \<Rightarrow>
             (case calculate_trend_count plus_di minus_di of
                Inl e \<Rightarrow> Inl e
              | Inr (pos_count, neg_count) \<Rightarrow>
                  Inr (evaluate_trades (map Close df) pos_count neg_count))))"






subsection \<open>Optimization layer\<close>

definition DI_LENGTH_MIN :: int where
  "DI_LENGTH_MIN = 1"

definition DI_LENGTH_MAX :: int where
  "DI_LENGTH_MAX = 40"

text \<open>
  One iteration of the grid search. An evaluation that raises is skipped by the inner
  \<^verbatim>\<open>except Exception: continue\<close>.
\<close>

definition sweep_step ::
  "bar list \<Rightarrow> int \<Rightarrow> alpha_stats option \<times> best_alpha \<times> int
     \<Rightarrow> alpha_stats option \<times> best_alpha \<times> int" where
  "sweep_step df length' best =
     (case check_alpha_validity df length' of
        Inl e \<Rightarrow> best
      | Inr stats \<Rightarrow>
          (case best of
             (best_result, best_alpha, best_length) \<Rightarrow>
               if alpha_gt (alpha stats) best_alpha
               then (Some stats, Fin (alpha stats), length')
               else best))"

definition grid_search :: "bar list \<Rightarrow> alpha_stats option \<times> best_alpha \<times> int" where
  "grid_search df = fold (sweep_step df) [DI_LENGTH_MIN..DI_LENGTH_MAX] (None, NegInf, 14)"

text \<open>
  What the grid search has to hold after the lengths \<open>1..hi\<close>: the statistics \<open>s\<close> of a
  length \<open>bl\<close> in that range whose alpha no evaluated length of the range exceeds, and which
  is the lowest length among those that reach it.
\<close>

definition sweep_best :: "bar list \<Rightarrow> int \<Rightarrow> alpha_stats \<Rightarrow> int \<Rightarrow> bool" where
  "sweep_best df hi s bl \<longleftrightarrow>
     1 \<le> bl \<and> bl \<le> hi \<and> check_alpha_validity df bl = Inr s \<and>
     (\<forall>l\<in>{1..hi}. \<forall>s'. check_alpha_validity df l = Inr s' \<longrightarrow>
        alpha s' \<le> alpha s \<and> (alpha s' = alpha s \<longrightarrow> bl \<le> l))"

text \<open>
  The data client is a parameter: \<open>get_stock_history\<close> stands for
  \<^verbatim>\<open>VnStockClient.get_stock_history\<close>, which returns an empty frame on every failure.
  The outer \<^verbatim>\<open>except\<close> of the source turns every exception into \<open>None\<close>.
\<close>

definition analyze_symbol ::
  "(string \<Rightarrow> nat \<Rightarrow> bar list) \<Rightarrow> string \<Rightarrow> nat \<Rightarrow> analysis option" where
  "analyze_symbol get_stock_history ticker days =
     (let df = get_stock_history ticker days
      in if length df < 50 then None
         else
           (case grid_search df of
              (None, best_alpha, best_length) \<Rightarrow> None
            | (Some best_result, best_alpha, best_length) \<Rightarrow>
                (case calculate_di df best_length of
                   Inl e \<Rightarrow> None
                 | Inr (plus_di, minus_di) \<Rightarrow>
                     (case calculate_trend_count plus_di minus_di of
                        Inl e \<Rightarrow> None
                      | Inr (pos_count, neg_count) \<Rightarrow>
                          if pos_count = [] then None
                          else
                            (let current_pos = last pos_count;
                                 previous_pos =
                                   (if length pos_count > 1
                                    then pos_count ! (length pos_count - 2) else 0);
                                 strength_val = \<bar>last plus_di - last minus_di\<bar>
                             in Some
                                  \<lparr>symbol = ticker,
                                   close_price = last (map Close df),
                                   res_is_valid = is_valid best_result,
                                   res_alpha = alpha best_result,
                                   res_algo_ret = algo_ret best_result,
                                   res_buy_hold = buy_hold best_result,
                                   res_total_trades = total_trades best_result,
                                   is_buy_signal = (current_pos = 1 \<and> previous_pos = 0),
                                   trend_strength =
                                     (if strength_val > 20 then ''Strong''
                                      else if strength_val > 10 then ''Mod''
                                      else ''Weak''),
                                   res_plus_di = last plus_di,
                                   res_minus_di = last minus_di,
                                   optimal_length = best_length,
                                   scan_range = ''1-40''\<rparr>)))))"

definition inspect_step :: "bar list \<Rightarrow> int \<Rightarrow> stability_row list \<Rightarrow> stability_row list" where
  "inspect_step df length' results =
     (case check_alpha_validity df length' of
        Inl e \<Rightarrow> results
      | Inr stats \<Rightarrow>
          results @
            [\<lparr>row_length = length',
              row_alpha = alpha stats,
              row_is_valid = is_valid stats,
              row_algo_ret = algo_ret stats,
              row_buy_hold = buy_hold stats,
              row_trades = total_trades stats\<rparr>])"

definition inspect_ticker_stability ::
  "(string \<Rightarrow> nat \<Rightarrow> bar list) \<Rightarrow> string \<Rightarrow> nat \<Rightarrow> stability_row list" where
  "inspect_ticker_stability get_stock_history ticker days =
     (let df = get_stock_history ticker days
      in if length df < 50 then []
         else sort_key row_length (fold (inspect_step df) [DI_LENGTH_MIN..DI_LENGTH_MAX] []))"

subsection \<open>A worked price history\<close>

text \<open>
  Fifty bars that close at 200 throughout: 48 flat ones, a bar that dips to 184, and a last
  bar that reaches 203 and dips to 183.
\<close>

definition example_bars :: "bar list" where
  "example_bars =
     replicate 48 \<lparr>High = 200, Low = 200, Close = 200\<rparr> @
       [\<lparr>High = 200, Low = 184, Close = 200\<rparr>, \<lparr>High = 203, Low = 183, Close = 200\<rparr>]"

definition example_history :: "string \<Rightarrow> nat \<Rightarrow> bar list" where
  "example_history ticker days = example_bars"

subsection \<open>Scans\<close>

text \<open>
  \<^verbatim>\<open>results.sort(key=lambda x: x['alpha'], reverse=True)\<close>: the sort of Python is stable,
  also in reverse, so it is the stable sort by the negated key.
\<close>

definition sort_by_alpha :: "analysis list \<Rightarrow> analysis list" where
  "sort_by_alpha results = sort_key (\<lambda>x. - res_alpha x) results"

definition scan_vn100 ::
  "(string \<Rightarrow> nat \<Rightarrow> bar list) \<Rightarrow> string list \<Rightarrow> nat \<Rightarrow> analysis list" where
  "scan_vn100 get_stock_history tickers days =
     (if tickers = [] then []
      else sort_by_alpha
             (List.map_filter (\<lambda>ticker. analyze_symbol get_stock_history ticker days) tickers))"

text \<open>The \<^verbatim>\<open>sort_key\<close> of \<^verbatim>\<open>run_scan\<close> in \<^verbatim>\<open>main.py\<close>.\<close>

definition run_scan_sort_key :: "analysis \<Rightarrow> int \<times> int \<times> real" where
  "run_scan_sort_key r =
     (let is_buy = (is_buy_signal r \<and> res_is_valid r);
          valid = res_is_valid r
      in (- of_bool is_buy, - of_bool valid, - res_alpha r))"

definition rank_results :: "analysis list \<Rightarrow> analysis list" where
  "rank_results results = sort_key run_scan_sort_key results"

definition run_scan :: "(string \<Rightarrow> nat \<Rightarrow> bar list) \<Rightarrow> string list \<Rightarrow> analysis list" where
  "run_scan get_stock_history tickers =
     rank_results (List.map_filter (\<lambda>ticker. analyze_symbol get_stock_history ticker 730) tickers)"

text \<open>
  Two analysis results for the examples of the ranking: one that beat neither guardrail
  with an alpha of 5 (a strategy return of -1 against a buy-and-hold return of -6), and a
  valid one with a buy signal and an alpha of 1.
\<close>

definition example_laggard :: analysis where
  "example_laggard =
     \<lparr>symbol = ''AAA'', close_price = 94, res_is_valid = False, res_alpha = 5,
      res_algo_ret = - 1, res_buy_hold = - 6, res_total_trades = 2, is_buy_signal = False,
      trend_strength = ''Weak'', res_plus_di = 10, res_minus_di = 12, optimal_length = 9,
      scan_range = ''1-40''\<rparr>"

definition example_leader :: analysis where
  "example_leader =
     \<lparr>symbol = ''BBB'', close_price = 102, res_is_valid = True, res_alpha = 1,
      res_algo_ret = 3, res_buy_hold = 2, res_total_trades = 3, is_buy_signal = True,
      trend_strength = ''Strong'', res_plus_di = 40, res_minus_di = 10, optimal_length = 14,
      scan_range = ''1-40''\<rparr>"

section \<open>Verification\<close>

subsection \<open>The impulse counts\<close>

lemma trend_step_length:
  "length (fst (trend_step p m i c)) = length (fst c)"
  "length (snd (trend_step p m i c)) = length (snd c)"
  by (simp_all add: trend_step_def Let_def)

lemma trend_step_other:
  "j \<noteq> i \<Longrightarrow> fst (trend_step p m i c) ! j = fst c ! j"
  "j \<noteq> i \<Longrightarrow> snd (trend_step p m i c) ! j = snd c ! j"
  by (simp_all add: trend_step_def Let_def)

lemma trend_fold_length:
  "length (fst (fold (trend_step p m) xs c)) = length (fst c) \<and>
   length (snd (fold (trend_step p m) xs c)) = length (snd c)"
  by (induction xs arbitrary: c) (simp_all add: trend_step_length)

lemma trend_fold_other:
  "j \<notin> set xs \<Longrightarrow>
     fst (fold (trend_step p m) xs c) ! j = fst c ! j \<and>
     snd (fold (trend_step p m) xs c) ! j = snd c ! j"
  by (induction xs arbitrary: c) (simp_all add: trend_step_other)

lemma trend_step_at:
  assumes "i < length (fst c)" "i < length (snd c)"
  shows "(fst (trend_step p m i c) ! i, snd (trend_step p m i c) ! i) =
           (if p ! i > p ! (i - 1) \<and> p ! i > m ! i then (fst c ! (i - 1) + 1, 0)
            else if m ! i > m ! (i - 1) \<and> m ! i > p ! i then (0, snd c ! (i - 1) + 1)
            else (fst c ! (i - 1), snd c ! (i - 1)))"
  using assms by (simp add: trend_step_def Let_def)

lemma trend_fold_at:
  assumes "1 \<le> i" "i < n"
    and c_def: "c = fold (trend_step p m) [1..<n] (replicate n 0, replicate n 0)"
  shows "(fst c ! i, snd c ! i) =
           (if p ! i > p ! (i - 1) \<and> p ! i > m ! i then (fst c ! (i - 1) + 1, 0)
            else if m ! i > m ! (i - 1) \<and> m ! i > p ! i then (0, snd c ! (i - 1) + 1)
            else (fst c ! (i - 1), snd c ! (i - 1)))"
proof -
  define s where "s = fold (trend_step p m) [1..<i] (replicate n 0, replicate n 0)"
  have "[1..<i + (n - i)] = [1..<i] @ [i..<i + (n - i)]"
    using assms(1) by (rule upt_add_eq_append)
  then have split: "[1..<n] = [1..<i] @ i # [Suc i..<n]"
    using assms(2) by (simp add: upt_conv_Cons)
  have c_eq: "c = fold (trend_step p m) [Suc i..<n] (trend_step p m i s)"
    unfolding c_def s_def by (subst split) simp
  have len: "length (fst s) = n" "length (snd s) = n"
    unfolding s_def using trend_fold_length [of p m "[1..<i]" "(replicate n 0, replicate n 0)"]
    by simp_all
  have "i \<notin> set [Suc i..<n]"
    by simp
  then have at_i: "fst c ! i = fst (trend_step p m i s) ! i" "snd c ! i = snd (trend_step p m i s) ! i"
    unfolding c_eq using trend_fold_other [of i "[Suc i..<n]" p m "trend_step p m i s"]
    by blast+
  have c_eq': "c = fold (trend_step p m) (i # [Suc i..<n]) s"
    unfolding c_eq by simp
  have "i - 1 \<notin> set (i # [Suc i..<n])"
    using assms(1) by auto
  then have prev: "fst c ! (i - 1) = fst s ! (i - 1)" "snd c ! (i - 1) = snd s ! (i - 1)"
    unfolding c_eq' using trend_fold_other [of "i - 1" "i # [Suc i..<n]" p m s]
    by blast+
  show ?thesis
    unfolding at_i prev using trend_step_at [of i s p m] len assms(2) by simp
qed

lemma trend_fold_zero:
  assumes "0 < n"
    and c_def: "c = fold (trend_step p m) [1..<n] (replicate n 0, replicate n 0)"
  shows "fst c ! 0 = 0 \<and> snd c ! 0 = 0"
  unfolding c_def
  using trend_fold_other [of 0 "[1..<n]" p m "(replicate n 0, replicate n 0)"] assms(1)
  by simp

lemma calculate_trend_count_Inr:
  assumes "calculate_trend_count p m = Inr (pc, nc)"
  shows "length m = length p"
    and "(pc, nc) = fold (trend_step p m) [1..<length p] (replicate (length p) 0, replicate (length p) 0)"
  using assms by (auto simp: calculate_trend_count_def Let_def split: if_splits)

lemma calculate_trend_count_length:
  assumes "calculate_trend_count p m = Inr (pc, nc)"
  shows "length pc = length p \<and> length nc = length p"
  using calculate_trend_count_Inr(2) [OF assms]
    trend_fold_length [of p m "[1..<length p]" "(replicate (length p) 0, replicate (length p) 0)"]
  by (metis fst_conv snd_conv length_replicate)

lemma calculate_trend_count_total:
  "length m = length p \<Longrightarrow> \<exists>pc nc. calculate_trend_count p m = Inr (pc, nc)"
  by (simp add: calculate_trend_count_def Let_def prod_eq_iff)

lemma trend_count_first:
  assumes "calculate_trend_count p m = Inr (pc, nc)" "0 < length p"
  shows "pc ! 0 = 0 \<and> nc ! 0 = 0"
  using trend_fold_zero [OF assms(2) calculate_trend_count_Inr(2) [OF assms(1)]]
  by simp

lemma trend_count_step:
  assumes "calculate_trend_count p m = Inr (pc, nc)" "1 \<le> i" "i < length p"
  shows "(pc ! i, nc ! i) =
           (if p ! i > p ! (i - 1) \<and> p ! i > m ! i then (pc ! (i - 1) + 1, 0)
            else if m ! i > m ! (i - 1) \<and> m ! i > p ! i then (0, nc ! (i - 1) + 1)
            else (pc ! (i - 1), nc ! (i - 1)))"
  using trend_fold_at [OF assms(2,3) calculate_trend_count_Inr(2) [OF assms(1)]]
  by simp

lemma trend_count_nat:
  assumes "calculate_trend_count p m = Inr (pc, nc)"
  shows "i < length p \<Longrightarrow> pc ! i \<in> \<nat> \<and> nc ! i \<in> \<nat> \<and> (pc ! i = 0 \<or> nc ! i = 0)"
proof (induction i)
  case 0
  then show ?case using trend_count_first [OF assms] by simp
next
  case (Suc i)
  then have IH: "pc ! i \<in> \<nat>" "nc ! i \<in> \<nat>" "pc ! i = 0 \<or> nc ! i = 0" by simp_all
  have "(pc ! Suc i, nc ! Suc i) =
           (if p ! Suc i > p ! i \<and> p ! Suc i > m ! Suc i then (pc ! i + 1, 0)
            else if m ! Suc i > m ! i \<and> m ! Suc i > p ! Suc i then (0, nc ! i + 1)
            else (pc ! i, nc ! i))"
    using trend_count_step [OF assms, of "Suc i"] Suc.prems by simp
  then show ?case using IH by (auto split: if_splits)
qed


lemma trend_step_exclusive:
  assumes "j < length (fst c)" "j < length (snd c)"
    and "(0 < fst c ! (j - 1) \<longrightarrow> snd c ! (j - 1) = 0) \<and> (0 < snd c ! (j - 1) \<longrightarrow> fst c ! (j - 1) = 0)"
  shows "(0 < fst (trend_step p m j c) ! j \<longrightarrow> snd (trend_step p m j c) ! j = 0) \<and>
         (0 < snd (trend_step p m j c) ! j \<longrightarrow> fst (trend_step p m j c) ! j = 0)"
  using trend_step_at [OF assms(1,2), of p m] assms(3)
  by (auto split: if_splits)

text \<open>
  C2: wherever \<open>calculate_trend_count\<close> returns, a positive \<open>positive_count\<close> goes with a zero
  \<open>negative_count\<close> at every index, and the other way round; and each of the three branches
  of a loop iteration (bullish, bearish, hold previous) carries this from index \<open>j - 1\<close> of
  any pair of count arrays to index \<open>j\<close> of the arrays it writes.
\<close>

theorem trend_count_exclusive:
  assumes "calculate_trend_count plus_di minus_di = Inr (positive_count, negative_count)"
    and "i < length positive_count"
  shows "(0 < positive_count ! i \<longrightarrow> negative_count ! i = 0) \<and>
         (0 < negative_count ! i \<longrightarrow> positive_count ! i = 0) \<and>
         (\<forall>c j. j < length (fst c) \<and> j < length (snd c) \<and>
                (0 < fst c ! (j - 1) \<longrightarrow> snd c ! (j - 1) = 0) \<and>
                (0 < snd c ! (j - 1) \<longrightarrow> fst c ! (j - 1) = 0) \<longrightarrow>
                (0 < fst (trend_step plus_di minus_di j c) ! j \<longrightarrow>
                   snd (trend_step plus_di minus_di j c) ! j = 0) \<and>
                (0 < snd (trend_step plus_di minus_di j c) ! j \<longrightarrow>
                   fst (trend_step plus_di minus_di j c) ! j = 0))"
proof -
  have "i < length plus_di"
    using calculate_trend_count_length [OF assms(1)] assms(2) by simp
  from trend_count_nat [OF assms(1) this]
  have "positive_count ! i = 0 \<or> negative_count ! i = 0" by simp
  then have "(0 < positive_count ! i \<longrightarrow> negative_count ! i = 0) \<and>
         (0 < negative_count ! i \<longrightarrow> positive_count ! i = 0)"
    by auto
  then show ?thesis
    using trend_step_exclusive [of _ _ plus_di minus_di] by blast
qed

lemma trend_count_example:
  "calculate_trend_count [1, 2, 1, 1] [0, 1, 3, 3] = Inr ([0, 1, 0, 0], [0, 0, 1, 1])"
  by (simp add: calculate_trend_count_def trend_step_def upt_rec numeral_eq_Suc)

theorem trend_count_exclusive_witness:
  "calculate_trend_count [1, 2, 1, 1] [0, 1, 3, 3] = Inr ([0, 1, 0, 0], [0, 0, 1, 1]) \<and>
   (1::nat) < length [0, 1, 0, 0::real] \<and>
   0 < [0, 1, 0, 0::real] ! 1 \<and> [0, 0, 1, 1::real] ! 1 = 0"
proof -
  have len: "(1::nat) < length [0, 1, 0, 0::real]"
    by simp
  have pos: "0 < [0, 1, 0, 0::real] ! 1"
    by simp
  from trend_count_exclusive [OF trend_count_example len] pos
  have "[0, 0, 1, 1::real] ! 1 = 0"
    by blast
  with trend_count_example len pos show ?thesis
    by blast
qed

text \<open>
  C10: both counts are whole numbers that are never negative, both are 0 at index 0, and at
  every later index a count is 0, or its own previous value, or its previous value plus 1.
\<close>

theorem trend_count_increments:
  assumes "calculate_trend_count plus_di minus_di = Inr (positive_count, negative_count)"
    and "i < length positive_count"
  shows "positive_count ! i \<in> \<nat> \<and> negative_count ! i \<in> \<nat> \<and>
         0 \<le> positive_count ! i \<and> 0 \<le> negative_count ! i \<and>
         (i = 0 \<longrightarrow> positive_count ! i = 0 \<and> negative_count ! i = 0) \<and>
         (1 \<le> i \<longrightarrow>
            (positive_count ! i = 0 \<or> positive_count ! i = positive_count ! (i - 1) \<or>
             positive_count ! i = positive_count ! (i - 1) + 1) \<and>
            (negative_count ! i = 0 \<or> negative_count ! i = negative_count ! (i - 1) \<or>
             negative_count ! i = negative_count ! (i - 1) + 1))"
proof -
  have i: "i < length plus_di"
    using calculate_trend_count_length [OF assms(1)] assms(2) by simp
  have nat: "positive_count ! i \<in> \<nat>" "negative_count ! i \<in> \<nat>"
    using trend_count_nat [OF assms(1) i] by simp_all
  then have nonneg: "0 \<le> positive_count ! i" "0 \<le> negative_count ! i"
    by (simp_all add: Nats_altdef2)
  have first: "i = 0 \<longrightarrow> positive_count ! i = 0 \<and> negative_count ! i = 0"
    using trend_count_first [OF assms(1)] i by auto
  have step: "(positive_count ! i = 0 \<or> positive_count ! i = positive_count ! (i - 1) \<or>
             positive_count ! i = positive_count ! (i - 1) + 1) \<and>
            (negative_count ! i = 0 \<or> negative_count ! i = negative_count ! (i - 1) \<or>
             negative_count ! i = negative_count ! (i - 1) + 1)" if "1 \<le> i"
    using trend_count_step [OF assms(1) that i] by (auto split: if_splits)
  show ?thesis
    using nat nonneg first step by blast
qed

lemma trend_count_example2:
  "calculate_trend_count [0, 5, 6, 2] [3, 1, 2, 4] = Inr ([0, 1, 2, 0], [0, 0, 0, 1])"
  by (simp add: calculate_trend_count_def trend_step_def upt_rec numeral_eq_Suc)

theorem trend_count_increments_witness:
  "calculate_trend_count [0, 5, 6, 2] [3, 1, 2, 4] = Inr ([0, 1, 2, 0], [0, 0, 0, 1]) \<and>
   (2::nat) < length [0, 1, 2, 0::real] \<and>
   [0, 1, 2, 0::real] ! 2 \<in> \<nat> \<and>
   [0, 1, 2, 0::real] ! 2 = [0, 1, 2, 0::real] ! (2 - 1) + 1 \<and>
   [0, 0, 0, 1::real] ! 2 = 0"
proof -
  have len: "(2::nat) < length [0, 1, 2, 0::real]"
    by simp
  from trend_count_increments [OF trend_count_example2 len] trend_count_example2 len
  show ?thesis by simp
qed

subsection \<open>Wilder smoothing\<close>

lemma ewm_from_length: "length (ewm_from a y xs) = length xs"
  by (induction xs arbitrary: y) simp_all



lemma rma_Inr:
  assumes "1 \<le> length'"
  shows "rma series length' =
           Inr (case series of [] \<Rightarrow> [] | x # xs \<Rightarrow> x # ewm_from (1 / real_of_int length') x xs)"
  using assms by (simp add: rma_def ewm_mean_def)

lemma rma_length:
  assumes "rma series length' = Inr out"
  shows "length out = length series"
  using assms
  by (auto simp: rma_def ewm_mean_def ewm_from_length split: if_splits list.splits)




subsection \<open>Insufficient data\<close>

text \<open>
  C4: with fewer than 50 bars \<open>check_alpha_validity\<close> raises nothing, for any smoothing
  length: it returns the insufficient-data value, not valid, with alpha, strategy return,
  buy-and-hold return and trade count all 0.
\<close>

theorem check_alpha_validity_insufficient:
  "length df < 50 \<Longrightarrow>
     check_alpha_validity df di_length =
       Inr \<lparr>is_valid = False, alpha = 0, algo_ret = 0, buy_hold = 0, total_trades = 0,
            reason = Some ''Insufficient data''\<rparr>"
  by (simp add: check_alpha_validity_def insufficient_data_def)

theorem check_alpha_validity_insufficient_witness:
  "length [\<lparr>High = 2, Low = 1, Close = 2\<rparr>] < 50 \<and>
   check_alpha_validity [\<lparr>High = 2, Low = 1, Close = 2\<rparr>] 0 =
     Inr \<lparr>is_valid = False, alpha = 0, algo_ret = 0, buy_hold = 0, total_trades = 0,
          reason = Some ''Insufficient data''\<rparr>"
  using check_alpha_validity_insufficient [of "[\<lparr>High = 2, Low = 1, Close = 2\<rparr>]" 0]
  by simp

subsection \<open>Directional indicators\<close>

lemma length_shift1: "length (shift1 xs) = length xs"
  by (cases xs) (simp_all add: shift1_def)

lemma length_true_ranges: "length (true_ranges df) = length df"
  by (simp add: true_ranges_def length_shift1)

lemma length_plus_dms: "length (plus_dms df) = length df"
  by (simp add: plus_dms_def length_shift1)

lemma length_minus_dms: "length (minus_dms df) = length df"
  by (simp add: minus_dms_def length_shift1)







lemma di_ratio_nonneg: "0 \<le> s \<Longrightarrow> 0 \<le> t \<Longrightarrow> 0 \<le> di_ratio s t"
  by (simp add: di_ratio_def)

lemma calculate_di_Inr:
  assumes "1 \<le> length'"
  obtains tr_smooth plus_smooth minus_smooth where
    "rma (true_ranges df) length' = Inr tr_smooth"
    "rma (plus_dms df) length' = Inr plus_smooth"
    "rma (minus_dms df) length' = Inr minus_smooth"
    "calculate_di df length' =
       Inr (map2 di_ratio plus_smooth tr_smooth, map2 di_ratio minus_smooth tr_smooth)"
    "length tr_smooth = length df" "length plus_smooth = length df"
    "length minus_smooth = length df"
proof -
  obtain t where t: "rma (true_ranges df) length' = Inr t"
    using rma_Inr [OF assms] by blast
  obtain p where p: "rma (plus_dms df) length' = Inr p"
    using rma_Inr [OF assms] by blast
  obtain m where m: "rma (minus_dms df) length' = Inr m"
    using rma_Inr [OF assms] by blast
  have "calculate_di df length' = Inr (map2 di_ratio p t, map2 di_ratio m t)"
    by (simp add: calculate_di_def t p m)
  moreover have "length t = length df" "length p = length df" "length m = length df"
    using rma_length [OF t] rma_length [OF p] rma_length [OF m]
    by (simp_all add: length_true_ranges length_plus_dms length_minus_dms)
  ultimately show ?thesis using that t p m by blast
qed

lemma calculate_di_length:
  assumes "1 \<le> length'"
  shows "\<exists>plus_di minus_di. calculate_di df length' = Inr (plus_di, minus_di) \<and>
           length plus_di = length df \<and> length minus_di = length df"
proof -
  obtain t p m where
    "calculate_di df length' = Inr (map2 di_ratio p t, map2 di_ratio m t)"
    "length t = length df" "length p = length df" "length m = length df"
    using calculate_di_Inr [OF assms, of df] by metis
  then show ?thesis by simp
qed



text \<open>
  The order of low and high is needed for the first bar only, whose true range is
  \<open>High - Low\<close>: a first bar with its low above its high makes the smoothed true range
  negative, and a DI with it.
\<close>

lemma calculate_di_unordered_bar:
  "calculate_di [\<lparr>High = 1, Low = 3, Close = 2\<rparr>, \<lparr>High = 2, Low = 3 / 2, Close = 2\<rparr>] 2 =
     Inr ([0, 0], [0, - 100])"
  by (simp add: calculate_di_def rma_def ewm_mean_def true_ranges_def plus_dms_def minus_dms_def
      shift1_def di_ratio_def)

subsection \<open>The trade simulation\<close>

lemma sim_step_cases:
  "sim_step close en ex i s =
     (if \<not> in_position s \<and> en ! i then s\<lparr>in_position := True, entry_price := close ! i\<rparr>
      else if in_position s \<and> ex ! i then
        s\<lparr>total_return := total_return s * (1 + (close ! i - entry_price s) / entry_price s),
          trades := trades s + 1, in_position := False\<rparr>
      else s)"
  by (simp add: sim_step_def Let_def)




lemma check_alpha_validity_Inr:
  assumes "50 \<le> length df" "1 \<le> di_length"
  obtains plus_di minus_di pos_count neg_count where
    "calculate_di df di_length = Inr (plus_di, minus_di)"
    "length plus_di = length df" "length minus_di = length df"
    "calculate_trend_count plus_di minus_di = Inr (pos_count, neg_count)"
    "length pos_count = length df" "length neg_count = length df"
    "check_alpha_validity df di_length =
       Inr (evaluate_trades (map Close df) pos_count neg_count)"
proof -
  obtain p m where di: "calculate_di df di_length = Inr (p, m)"
    and len: "length p = length df" "length m = length df"
    using calculate_di_length [OF assms(2), of df] by blast
  obtain pc nc where tc: "calculate_trend_count p m = Inr (pc, nc)"
    using calculate_trend_count_total [of m p] len by auto
  have "check_alpha_validity df di_length = Inr (evaluate_trades (map Close df) pc nc)"
    using assms(1) by (simp add: check_alpha_validity_def di tc)
  then show ?thesis
    using that di len tc calculate_trend_count_length [OF tc] by simp
qed



subsection \<open>The grid search\<close>

lemma check_alpha_validity_total:
  assumes "50 \<le> length df" "1 \<le> di_length"
  shows "\<exists>stats. check_alpha_validity df di_length = Inr stats"
  using check_alpha_validity_Inr [OF assms] by metis

lemma sweep_step_Inl:
  "check_alpha_validity df l = Inl e \<Longrightarrow> sweep_step df l best = best"
  by (simp add: sweep_step_def)

lemma sweep_step_Inr:
  "check_alpha_validity df l = Inr stats \<Longrightarrow>
     sweep_step df l (br, ba, bl) =
       (if alpha_gt (alpha stats) ba then (Some stats, Fin (alpha stats), l) else (br, ba, bl))"
  by (simp add: sweep_step_def)

lemma sweep_best_first:
  assumes "0 \<le> hi" "check_alpha_validity df (hi + 1) = Inr st"
    and "\<forall>l\<in>{1..hi}. \<forall>s. check_alpha_validity df l \<noteq> Inr s"
  shows "sweep_best df (hi + 1) st (hi + 1)"
  unfolding sweep_best_def
proof (intro conjI ballI allI impI)
  fix l s'
  assume l: "l \<in> {1..hi + 1}" and s': "check_alpha_validity df l = Inr s'"
  have "l = hi + 1"
  proof (rule ccontr)
    assume "l \<noteq> hi + 1"
    then have "l \<in> {1..hi}" using l by simp
    then show False using assms(3) s' by blast
  qed
  then have "s' = st" using s' assms(2) by simp
  then show "alpha s' \<le> alpha st" by simp
  show "hi + 1 \<le> l" using \<open>l = hi + 1\<close> by simp
qed (use assms in simp_all)

lemma sweep_best_replace:
  assumes "sweep_best df hi s bl" "check_alpha_validity df (hi + 1) = Inr st"
    and "alpha s < alpha st"
  shows "sweep_best df (hi + 1) st (hi + 1)"
  unfolding sweep_best_def
proof (intro conjI ballI allI impI)
  have hi: "1 \<le> hi" using assms(1) by (simp add: sweep_best_def)
  show "1 \<le> hi + 1" using hi by simp
  show "hi + 1 \<le> hi + 1" by simp
  show "check_alpha_validity df (hi + 1) = Inr st" by (rule assms(2))
  fix l s'
  assume l: "l \<in> {1..hi + 1}" and s': "check_alpha_validity df l = Inr s'"
  have old: "alpha s' \<le> alpha s" if "l \<in> {1..hi}"
    using assms(1) that s' by (simp add: sweep_best_def)
  show "alpha s' \<le> alpha st"
  proof (cases "l = hi + 1")
    case True
    then show ?thesis using s' assms(2) by simp
  next
    case False
    then have "l \<in> {1..hi}" using l by simp
    then show ?thesis using old assms(3) by simp
  qed
  assume eq: "alpha s' = alpha st"
  show "hi + 1 \<le> l"
  proof (cases "l = hi + 1")
    case True
    then show ?thesis by simp
  next
    case False
    then have "l \<in> {1..hi}" using l by simp
    then show ?thesis using old assms(3) eq by simp
  qed
qed

lemma sweep_best_keep:
  assumes "sweep_best df hi s bl" "check_alpha_validity df (hi + 1) = Inr st"
    and "\<not> alpha s < alpha st"
  shows "sweep_best df (hi + 1) s bl"
  unfolding sweep_best_def
proof (intro conjI ballI allI impI)
  have b: "1 \<le> bl" "bl \<le> hi" "check_alpha_validity df bl = Inr s"
    using assms(1) by (simp_all add: sweep_best_def)
  show "1 \<le> bl" by (rule b(1))
  show "bl \<le> hi + 1" using b(2) by simp
  show "check_alpha_validity df bl = Inr s" by (rule b(3))
  fix l s'
  assume l: "l \<in> {1..hi + 1}" and s': "check_alpha_validity df l = Inr s'"
  have old: "alpha s' \<le> alpha s \<and> (alpha s' = alpha s \<longrightarrow> bl \<le> l)" if "l \<in> {1..hi}"
    using assms(1) that s' by (simp add: sweep_best_def)
  show "alpha s' \<le> alpha s"
  proof (cases "l = hi + 1")
    case True
    then show ?thesis using s' assms(2,3) by simp
  next
    case False
    then have "l \<in> {1..hi}" using l by simp
    then show ?thesis using old by simp
  qed
  assume eq: "alpha s' = alpha s"
  show "bl \<le> l"
  proof (cases "l = hi + 1")
    case True
    then show ?thesis using b(2) by simp
  next
    case False
    then have "l \<in> {1..hi}" using l by simp
    then show ?thesis using old eq by simp
  qed
qed

lemma sweep_best_skip:
  assumes "sweep_best df hi s bl" "check_alpha_validity df (hi + 1) = Inl e"
  shows "sweep_best df (hi + 1) s bl"
  unfolding sweep_best_def
proof (intro conjI ballI allI impI)
  have b: "1 \<le> bl" "bl \<le> hi" "check_alpha_validity df bl = Inr s"
    using assms(1) by (simp_all add: sweep_best_def)
  show "1 \<le> bl" by (rule b(1))
  show "bl \<le> hi + 1" using b(2) by simp
  show "check_alpha_validity df bl = Inr s" by (rule b(3))
  fix l s'
  assume l: "l \<in> {1..hi + 1}" and s': "check_alpha_validity df l = Inr s'"
  have "l \<noteq> hi + 1" using s' assms(2) by auto
  then have "l \<in> {1..hi}" using l by simp
  then have old: "alpha s' \<le> alpha s \<and> (alpha s' = alpha s \<longrightarrow> bl \<le> l)"
    using assms(1) s' by (simp add: sweep_best_def)
  then show "alpha s' \<le> alpha s" by simp
  assume "alpha s' = alpha s"
  then show "bl \<le> l" using old by simp
qed


lemma sweep_invariant:
  "\<exists>br ba bl. fold (sweep_step df) [1..int k] (None, NegInf, start) = (br, ba, bl) \<and>
     ((br = None \<and> ba = NegInf \<and> (\<forall>l\<in>{1..int k}. \<forall>s. check_alpha_validity df l \<noteq> Inr s)) \<or>
      (\<exists>s. br = Some s \<and> ba = Fin (alpha s) \<and> sweep_best df (int k) s bl))"
proof (induction k)
  case 0
  then show ?case by simp
next
  case (Suc k)
  then obtain br ba bl where
    st: "fold (sweep_step df) [1..int k] (None, NegInf, start) = (br, ba, bl)" and
    IH: "(br = None \<and> ba = NegInf \<and> (\<forall>l\<in>{1..int k}. \<forall>s. check_alpha_validity df l \<noteq> Inr s)) \<or>
         (\<exists>s. br = Some s \<and> ba = Fin (alpha s) \<and> sweep_best df (int k) s bl)"
    by blast
  have suc: "int (Suc k) = int k + 1"
    by simp
  have split: "[1..int k + 1] = [1..int k] @ [int k + 1]"
    using upto_rec2 [of 1 "int k + 1"] by simp
  have next_st: "fold (sweep_step df) [1..int k + 1] (None, NegInf, start) =
                   sweep_step df (int k + 1) (br, ba, bl)"
    unfolding split fold_append by (simp add: st)
  show ?case
    unfolding suc next_st
  proof (cases "check_alpha_validity df (int k + 1)")
    case (Inl e)
    have same: "sweep_step df (int k + 1) (br, ba, bl) = (br, ba, bl)"
      using Inl by (rule sweep_step_Inl)
    from IH show "\<exists>br' ba' bl'. sweep_step df (int k + 1) (br, ba, bl) = (br', ba', bl') \<and>
       ((br' = None \<and> ba' = NegInf \<and>
           (\<forall>l\<in>{1..int k + 1}. \<forall>s. check_alpha_validity df l \<noteq> Inr s)) \<or>
        (\<exists>s. br' = Some s \<and> ba' = Fin (alpha s) \<and> sweep_best df (int k + 1) s bl'))"
    proof
      assume none: "br = None \<and> ba = NegInf \<and>
                    (\<forall>l\<in>{1..int k}. \<forall>s. check_alpha_validity df l \<noteq> Inr s)"
      have "\<forall>l\<in>{1..int k + 1}. \<forall>s. check_alpha_validity df l \<noteq> Inr s"
      proof (intro ballI allI)
        fix l s assume "l \<in> {1..int k + 1}"
        then have "l \<in> {1..int k} \<or> l = int k + 1" by auto
        then show "check_alpha_validity df l \<noteq> Inr s"
          using none Inl by auto
      qed
      with none same show ?thesis by simp
    next
      assume "\<exists>s. br = Some s \<and> ba = Fin (alpha s) \<and> sweep_best df (int k) s bl"
      then obtain s where s: "br = Some s" "ba = Fin (alpha s)" "sweep_best df (int k) s bl"
        by blast
      have "sweep_best df (int k + 1) s bl"
        using s(3) Inl by (rule sweep_best_skip)
      with s same show ?thesis by simp
    qed
  next
    case (Inr stats)
    note step = sweep_step_Inr [OF Inr, of br ba bl]
    from IH show "\<exists>br' ba' bl'. sweep_step df (int k + 1) (br, ba, bl) = (br', ba', bl') \<and>
       ((br' = None \<and> ba' = NegInf \<and>
           (\<forall>l\<in>{1..int k + 1}. \<forall>s. check_alpha_validity df l \<noteq> Inr s)) \<or>
        (\<exists>s. br' = Some s \<and> ba' = Fin (alpha s) \<and> sweep_best df (int k + 1) s bl'))"
    proof
      assume none: "br = None \<and> ba = NegInf \<and>
                    (\<forall>l\<in>{1..int k}. \<forall>s. check_alpha_validity df l \<noteq> Inr s)"
      then have new: "sweep_step df (int k + 1) (br, ba, bl) =
                        (Some stats, Fin (alpha stats), int k + 1)"
        using step by simp
      have "sweep_best df (int k + 1) stats (int k + 1)"
        using sweep_best_first [of "int k" df stats] Inr none by simp
      with new show ?thesis by simp
    next
      assume "\<exists>s. br = Some s \<and> ba = Fin (alpha s) \<and> sweep_best df (int k) s bl"
      then obtain s where s: "br = Some s" "ba = Fin (alpha s)" "sweep_best df (int k) s bl"
        by blast
      show ?thesis
      proof (cases "alpha s < alpha stats")
        case True
        then have new: "sweep_step df (int k + 1) (br, ba, bl) =
                          (Some stats, Fin (alpha stats), int k + 1)"
          using step s(2) by simp
        have "sweep_best df (int k + 1) stats (int k + 1)"
          using s(3) Inr True by (rule sweep_best_replace)
        with new show ?thesis by simp
      next
        case False
        then have same: "sweep_step df (int k + 1) (br, ba, bl) = (br, ba, bl)"
          using step s(2) by simp
        have "sweep_best df (int k + 1) s bl"
          using s(3) Inr False by (rule sweep_best_keep)
        with s same show ?thesis by simp
      qed
    qed
  qed
qed

lemma grid_search_best:
  assumes "50 \<le> length df"
  shows "\<exists>s bl. grid_search df = (Some s, Fin (alpha s), bl) \<and> sweep_best df 40 s bl"
proof -
  have gs: "grid_search df = fold (sweep_step df) [1..int 40] (None, NegInf, 14)"
    by (simp add: grid_search_def DI_LENGTH_MIN_def DI_LENGTH_MAX_def)
  obtain br ba bl where
    st: "fold (sweep_step df) [1..int 40] (None, NegInf, 14) = (br, ba, bl)" and
    inv: "(br = None \<and> ba = NegInf \<and> (\<forall>l\<in>{1..int 40}. \<forall>s. check_alpha_validity df l \<noteq> Inr s)) \<or>
          (\<exists>s. br = Some s \<and> ba = Fin (alpha s) \<and> sweep_best df (int 40) s bl)"
    using sweep_invariant [where df = df and k = 40 and start = 14] by blast
  obtain s1 where "check_alpha_validity df 1 = Inr s1"
    using check_alpha_validity_total [OF assms, of 1] by auto
  moreover have "(1::int) \<in> {1..int 40}"
    by simp
  ultimately have "\<not> (\<forall>l\<in>{1..int 40}. \<forall>s. check_alpha_validity df l \<noteq> Inr s)"
    by blast
  with inv obtain s where "br = Some s" "ba = Fin (alpha s)" "sweep_best df (int 40) s bl"
    by blast
  then show ?thesis
    using gs st by simp
qed


lemma calculate_di_Inr_length:
  assumes "calculate_di df length' = Inr (plus_di, minus_di)"
  shows "length plus_di = length df \<and> length minus_di = length df"
proof -
  from assms obtain t p m where
    t: "rma (true_ranges df) length' = Inr t" and
    p: "rma (plus_dms df) length' = Inr p" and
    m: "rma (minus_dms df) length' = Inr m" and
    eq: "plus_di = map2 di_ratio p t" "minus_di = map2 di_ratio m t"
    by (auto simp: calculate_di_def split: sum.splits)
  show ?thesis
    using rma_length [OF t] rma_length [OF p] rma_length [OF m]
    by (simp add: eq length_true_ranges length_plus_dms length_minus_dms)
qed

lemma analyze_symbol_result:
  assumes "50 \<le> length (get_stock_history ticker days)"
  shows "\<exists>s bl plus_di minus_di pos_count neg_count.
           grid_search (get_stock_history ticker days) = (Some s, Fin (alpha s), bl) \<and>
           sweep_best (get_stock_history ticker days) 40 s bl \<and>
           calculate_di (get_stock_history ticker days) bl = Inr (plus_di, minus_di) \<and>
           calculate_trend_count plus_di minus_di = Inr (pos_count, neg_count) \<and>
           length plus_di = length (get_stock_history ticker days) \<and>
           length minus_di = length (get_stock_history ticker days) \<and>
           length pos_count = length (get_stock_history ticker days) \<and>
           analyze_symbol get_stock_history ticker days =
             Some \<lparr>symbol = ticker,
                   close_price = last (map Close (get_stock_history ticker days)),
                   res_is_valid = is_valid s,
                   res_alpha = alpha s,
                   res_algo_ret = algo_ret s,
                   res_buy_hold = buy_hold s,
                   res_total_trades = total_trades s,
                   is_buy_signal =
                     (last pos_count = 1 \<and> pos_count ! (length pos_count - 2) = 0),
                   trend_strength =
                     (if \<bar>last plus_di - last minus_di\<bar> > 20 then ''Strong''
                      else if \<bar>last plus_di - last minus_di\<bar> > 10 then ''Mod''
                      else ''Weak''),
                   res_plus_di = last plus_di,
                   res_minus_di = last minus_di,
                   optimal_length = bl,
                   scan_range = ''1-40''\<rparr>"
proof -
  define df where "df = get_stock_history ticker days"
  have len: "50 \<le> length df"
    using assms by (simp add: df_def)
  obtain s bl where gs: "grid_search df = (Some s, Fin (alpha s), bl)"
    and best: "sweep_best df 40 s bl"
    using grid_search_best [OF len] by blast
  have "1 \<le> bl"
    using best by (simp add: sweep_best_def)
  then obtain p m where di: "calculate_di df bl = Inr (p, m)"
    and plen: "length p = length df" "length m = length df"
    using calculate_di_length [of bl df] by blast
  obtain pc nc where tc: "calculate_trend_count p m = Inr (pc, nc)"
    using calculate_trend_count_total [of m p] plen by auto
  have pclen: "length pc = length df"
    using calculate_trend_count_length [OF tc] plen by simp
  have ne: "pc \<noteq> []" "1 < length pc"
    using pclen len by auto
  have "\<not> length df < 50"
    using len by simp
  then have "analyze_symbol get_stock_history ticker days =
             Some \<lparr>symbol = ticker,
                   close_price = last (map Close df),
                   res_is_valid = is_valid s,
                   res_alpha = alpha s,
                   res_algo_ret = algo_ret s,
                   res_buy_hold = buy_hold s,
                   res_total_trades = total_trades s,
                   is_buy_signal = (last pc = 1 \<and> pc ! (length pc - 2) = 0),
                   trend_strength =
                     (if \<bar>last p - last m\<bar> > 20 then ''Strong''
                      else if \<bar>last p - last m\<bar> > 10 then ''Mod''
                      else ''Weak''),
                   res_plus_di = last p,
                   res_minus_di = last m,
                   optimal_length = bl,
                   scan_range = ''1-40''\<rparr>"
    unfolding analyze_symbol_def df_def [symmetric] Let_def
    by (simp only: if_False gs di tc ne prod.case option.case sum.case if_True)
  then show ?thesis
    using gs best di tc plen pclen unfolding df_def by blast
qed


subsection \<open>Constant closing prices\<close>

lemma sim_step_constant_close:
  assumes "total_return s = 1" "in_position s \<longrightarrow> entry_price s = c" "close ! i = c"
  shows "total_return (sim_step close en ex i s) = 1 \<and>
         (in_position (sim_step close en ex i s) \<longrightarrow> entry_price (sim_step close en ex i s) = c)"
  using assms by (simp add: sim_step_cases)

lemma sim_fold_constant_close:
  assumes "\<forall>i\<in>set xs. close ! i = c"
  shows "total_return s = 1 \<Longrightarrow> (in_position s \<longrightarrow> entry_price s = c) \<Longrightarrow>
         total_return (fold (sim_step close en ex) xs s) = 1 \<and>
         (in_position (fold (sim_step close en ex) xs s) \<longrightarrow>
            entry_price (fold (sim_step close en ex) xs s) = c)"
  using assms
proof (induction xs arbitrary: s)
  case Nil
  then show ?case by simp
next
  case (Cons i xs)
  have "close ! i = c" using Cons.prems(3) by simp
  from sim_step_constant_close [OF Cons.prems(1,2) this, of en ex]
  have "total_return (sim_step close en ex i s) = 1"
    "in_position (sim_step close en ex i s) \<longrightarrow> entry_price (sim_step close en ex i s) = c"
    by simp_all
  from Cons.IH [OF this] Cons.prems(3) show ?case by simp
qed

lemma simulate_trades_constant_close:
  assumes "close \<noteq> []" "\<forall>x\<in>set close. x = c"
  shows "total_return (simulate_trades close en ex) = 1"
proof -
  have nth: "\<forall>i\<in>set [1..<length close]. close ! i = c"
    using assms(2) by simp
  have lst: "last close = c"
    using assms by simp
  define s where "s = fold (sim_step close en ex) [1..<length close] sim_init"
  have s: "total_return s = 1" "in_position s \<longrightarrow> entry_price s = c"
    unfolding s_def
    using sim_fold_constant_close [OF nth, of sim_init en ex] by (simp_all add: sim_init_def)
  have "total_return (close_open_position close s) = 1"
    using s lst by (simp add: close_open_position_def Let_def)
  then show ?thesis
    by (simp add: simulate_trades_def s_def)
qed

lemma check_alpha_validity_constant_close:
  assumes "50 \<le> length df" "1 \<le> di_length" "\<forall>b\<in>set df. Close b = c"
  shows "\<exists>stats. check_alpha_validity df di_length = Inr stats \<and> alpha stats = 0 \<and>
           algo_ret stats = 0 \<and> buy_hold stats = 0 \<and> \<not> is_valid stats"
proof -
  obtain pc nc where
    chk: "check_alpha_validity df di_length = Inr (evaluate_trades (map Close df) pc nc)"
    using check_alpha_validity_Inr [OF assms(1,2)] by metis
  have ne: "map Close df \<noteq> []"
    using assms(1) by auto
  have all: "\<forall>x\<in>set (map Close df). x = c"
    using assms(3) by simp
  have tr: "total_return (simulate_trades (map Close df) (ignition pc) (ignition nc)) = 1"
    by (rule simulate_trades_constant_close [OF ne all])
  have "hd (map Close df) \<in> set (map Close df)" "last (map Close df) \<in> set (map Close df)"
    using ne by (rule hd_in_set, rule last_in_set)
  with all have "hd (map Close df) = c" "last (map Close df) = c"
    by blast+
  then have "alpha (evaluate_trades (map Close df) pc nc) = 0"
    "algo_ret (evaluate_trades (map Close df) pc nc) = 0"
    "buy_hold (evaluate_trades (map Close df) pc nc) = 0"
    "\<not> is_valid (evaluate_trades (map Close df) pc nc)"
    using tr by (simp_all add: evaluate_trades_def Let_def)
  then show ?thesis using chk by simp
qed

lemma analyze_symbol_constant_close:
  assumes "50 \<le> length (get_stock_history ticker days)"
    and "\<forall>b\<in>set (get_stock_history ticker days). Close b = c"
  shows "\<exists>plus_di minus_di pos_count neg_count r.
           calculate_di (get_stock_history ticker days) 1 = Inr (plus_di, minus_di) \<and>
           calculate_trend_count plus_di minus_di = Inr (pos_count, neg_count) \<and>
           analyze_symbol get_stock_history ticker days = Some r \<and>
           optimal_length r = 1 \<and> res_alpha r = 0 \<and> \<not> res_is_valid r \<and>
           res_plus_di r = last plus_di \<and> res_minus_di r = last minus_di \<and>
           is_buy_signal r = (last pos_count = 1 \<and> pos_count ! (length pos_count - 2) = 0) \<and>
           trend_strength r =
             (if \<bar>last plus_di - last minus_di\<bar> > 20 then ''Strong''
              else if \<bar>last plus_di - last minus_di\<bar> > 10 then ''Mod''
              else ''Weak'')"
proof -
  define df where "df = get_stock_history ticker days"
  have len: "50 \<le> length df" and cc: "\<forall>b\<in>set df. Close b = c"
    using assms by (simp_all add: df_def)
  obtain s bl p m pc nc r where
    best: "sweep_best df 40 s bl" and
    di: "calculate_di df bl = Inr (p, m)" and
    tc: "calculate_trend_count p m = Inr (pc, nc)" and
    r: "analyze_symbol get_stock_history ticker days = Some r" and
    fields: "optimal_length r = bl" "res_alpha r = alpha s" "res_is_valid r = is_valid s"
      "res_plus_di r = last p" "res_minus_di r = last m"
      "is_buy_signal r = (last pc = 1 \<and> pc ! (length pc - 2) = 0)"
      "trend_strength r =
         (if \<bar>last p - last m\<bar> > 20 then ''Strong''
          else if \<bar>last p - last m\<bar> > 10 then ''Mod'' else ''Weak'')"
    using analyze_symbol_result
      [where get_stock_history = get_stock_history and ticker = ticker and days = days] assms(1)
    unfolding df_def by fastforce
  have b: "1 \<le> bl" "check_alpha_validity df bl = Inr s"
    and mx: "\<forall>l\<in>{1..40}. \<forall>s'. check_alpha_validity df l = Inr s' \<longrightarrow>
               alpha s' \<le> alpha s \<and> (alpha s' = alpha s \<longrightarrow> bl \<le> l)"
    using best by (simp_all add: sweep_best_def)
  have s0: "alpha s = 0" "\<not> is_valid s"
    using check_alpha_validity_constant_close [OF len b(1) cc] b(2) by auto
  obtain s1 where s1: "check_alpha_validity df 1 = Inr s1" "alpha s1 = 0"
    using check_alpha_validity_constant_close [OF len _ cc, of 1] by auto
  have "bl \<le> 1"
    using mx s1 s0 by auto
  then have bl: "bl = 1"
    using b(1) by simp
  show ?thesis
    using di tc r fields s0 unfolding bl df_def by auto
qed

subsection \<open>The worked history and the signal of a result\<close>

lemma example_bars_length: "length example_bars = 50"
  by (simp add: example_bars_def)

lemma example_bars_close: "\<forall>b\<in>set example_bars. Close b = 200"
  by (auto simp: example_bars_def)

lemma example_di:
  "calculate_di example_bars 1 = Inr (replicate 49 0 @ [15], replicate 48 0 @ [100, 0])"
  by code_simp

lemma example_counts:
  "calculate_trend_count (replicate 49 0 @ [15]) (replicate 48 0 @ [100, 0]) =
     Inr (replicate 49 0 @ [1], replicate 48 0 @ [1, 0])"
  by code_simp

lemma example_analysis:
  "\<exists>r. analyze_symbol example_history ''FPT'' 730 = Some r \<and>
       optimal_length r = 1 \<and> res_alpha r = 0 \<and> \<not> res_is_valid r \<and>
       res_plus_di r = 15 \<and> res_minus_di r = 0 \<and> is_buy_signal r \<and>
       trend_strength r = ''Mod''"
proof -
  have len: "50 \<le> length (example_history ''FPT'' 730)"
    by (simp add: example_history_def example_bars_length)
  have cc: "\<forall>b\<in>set (example_history ''FPT'' 730). Close b = 200"
    by (simp add: example_history_def example_bars_close)
  obtain p m pc nc r where
    di: "calculate_di (example_history ''FPT'' 730) 1 = Inr (p, m)" and
    tc: "calculate_trend_count p m = Inr (pc, nc)" and
    r: "analyze_symbol example_history ''FPT'' 730 = Some r" and
    fields: "optimal_length r = 1" "res_alpha r = 0" "\<not> res_is_valid r"
      "res_plus_di r = last p" "res_minus_di r = last m"
      "is_buy_signal r = (last pc = 1 \<and> pc ! (length pc - 2) = 0)"
      "trend_strength r =
         (if \<bar>last p - last m\<bar> > 20 then ''Strong''
          else if \<bar>last p - last m\<bar> > 10 then ''Mod'' else ''Weak'')"
    using analyze_symbol_constant_close
      [where get_stock_history = example_history and ticker = "''FPT''" and days = 730
         and c = 200] len cc
    by blast
  have p: "p = replicate 49 0 @ [15]" and m: "m = replicate 48 0 @ [100, 0]"
    using di example_di by (simp_all add: example_history_def)
  have pc: "pc = replicate 49 0 @ [1]"
    using tc example_counts unfolding p m by simp
  have lp: "last p = 15" "last m = 0"
    by (simp_all add: p m)
  have "last pc = 1" "pc ! (length pc - 2) = 0"
    by (simp_all add: pc nth_append)
  then show ?thesis
    using r fields lp by simp
qed



text \<open>
  C8, as the code has it: a result of \<open>analyze_symbol\<close> carries the buy signal exactly when
  the positive count of the returned length is 1 at the last bar and 0 at the bar before,
  and its trend strength is \<open>Strong\<close> above a DI gap of 20, \<open>Mod\<close> above 10 and up to 20,
  \<open>Weak\<close> otherwise.
\<close>

theorem analyze_symbol_signal:
  assumes "analyze_symbol get_stock_history ticker days = Some r"
  shows "\<exists>plus_di minus_di pos_count neg_count.
           calculate_di (get_stock_history ticker days) (optimal_length r) =
             Inr (plus_di, minus_di) \<and>
           calculate_trend_count plus_di minus_di = Inr (pos_count, neg_count) \<and>
           length pos_count = length (get_stock_history ticker days) \<and>
           50 \<le> length pos_count \<and>
           is_buy_signal r =
             (last pos_count = 1 \<and> pos_count ! (length pos_count - 2) = 0) \<and>
           (20 < \<bar>last plus_di - last minus_di\<bar> \<longrightarrow> trend_strength r = ''Strong'') \<and>
           (10 < \<bar>last plus_di - last minus_di\<bar> \<and> \<not> 20 < \<bar>last plus_di - last minus_di\<bar> \<longrightarrow>
              trend_strength r = ''Mod'') \<and>
           (\<not> 10 < \<bar>last plus_di - last minus_di\<bar> \<longrightarrow> trend_strength r = ''Weak'')"
proof -
  have len: "50 \<le> length (get_stock_history ticker days)"
  proof (rule ccontr)
    assume "\<not> 50 \<le> length (get_stock_history ticker days)"
    then have "analyze_symbol get_stock_history ticker days = None"
      by (simp add: analyze_symbol_def)
    with assms show False by simp
  qed
  from analyze_symbol_result
    [where get_stock_history = get_stock_history and ticker = ticker and days = days, OF len]
  show ?thesis
  proof (elim exE conjE)
    fix s bl p m pc nc
    assume di: "calculate_di (get_stock_history ticker days) bl = Inr (p, m)"
      and tc: "calculate_trend_count p m = Inr (pc, nc)"
      and pclen: "length pc = length (get_stock_history ticker days)"
      and res: "analyze_symbol get_stock_history ticker days =
            Some \<lparr>symbol = ticker,
                  close_price = last (map Close (get_stock_history ticker days)),
                  res_is_valid = is_valid s,
                  res_alpha = alpha s,
                  res_algo_ret = algo_ret s,
                  res_buy_hold = buy_hold s,
                  res_total_trades = total_trades s,
                  is_buy_signal = (last pc = 1 \<and> pc ! (length pc - 2) = 0),
                  trend_strength =
                    (if \<bar>last p - last m\<bar> > 20 then ''Strong''
                     else if \<bar>last p - last m\<bar> > 10 then ''Mod''
                     else ''Weak''),
                  res_plus_di = last p,
                  res_minus_di = last m,
                  optimal_length = bl,
                  scan_range = ''1-40''\<rparr>"
    have bl: "optimal_length r = bl"
      and buy: "is_buy_signal r = (last pc = 1 \<and> pc ! (length pc - 2) = 0)"
      and ts: "trend_strength r =
           (if \<bar>last p - last m\<bar> > 20 then ''Strong''
            else if \<bar>last p - last m\<bar> > 10 then ''Mod'' else ''Weak'')"
      using res assms by auto
    have ts': "(20 < \<bar>last p - last m\<bar> \<longrightarrow> trend_strength r = ''Strong'') \<and>
             (10 < \<bar>last p - last m\<bar> \<and> \<not> 20 < \<bar>last p - last m\<bar> \<longrightarrow>
                trend_strength r = ''Mod'') \<and>
             (\<not> 10 < \<bar>last p - last m\<bar> \<longrightarrow> trend_strength r = ''Weak'')"
      unfolding ts by simp
    have "50 \<le> length pc"
      using pclen len by simp
    with di tc pclen buy ts' show ?thesis
      unfolding bl by blast
  qed
qed

theorem analyze_symbol_signal_witness:
  "\<exists>r plus_di minus_di pos_count neg_count.
     analyze_symbol example_history ''FPT'' 730 = Some r \<and>
     calculate_di (example_history ''FPT'' 730) (optimal_length r) = Inr (plus_di, minus_di) \<and>
     calculate_trend_count plus_di minus_di = Inr (pos_count, neg_count) \<and>
     is_buy_signal r = (last pos_count = 1 \<and> pos_count ! (length pos_count - 2) = 0) \<and>
     is_buy_signal r \<and> trend_strength r = ''Mod''"
proof -
  obtain r where r: "analyze_symbol example_history ''FPT'' 730 = Some r"
    "is_buy_signal r" "trend_strength r = ''Mod''"
    using example_analysis by blast
  from analyze_symbol_signal [OF r(1)] r show ?thesis
    by blast
qed

text \<open>
  The claim's label for the middle bucket is not the code's: on the worked history the DI
  gap of the returned length is 15, and the trend strength is \<open>Mod\<close>.
\<close>

theorem moderate_label_counterexample:
  "map_option res_plus_di (analyze_symbol example_history ''FPT'' 730) = Some 15 \<and>
   map_option res_minus_di (analyze_symbol example_history ''FPT'' 730) = Some 0 \<and>
   (10::real) < \<bar>15 - 0\<bar> \<and> \<not> (20::real) < \<bar>15 - 0\<bar> \<and>
   map_option trend_strength (analyze_symbol example_history ''FPT'' 730) = Some ''Mod'' \<and>
   map_option trend_strength (analyze_symbol example_history ''FPT'' 730) \<noteq> Some ''Moderate''"
proof -
  obtain r where r: "analyze_symbol example_history ''FPT'' 730 = Some r"
    "res_plus_di r = 15" "res_minus_di r = 0" "trend_strength r = ''Mod''"
    using example_analysis by blast
  then show ?thesis by simp
qed

subsection \<open>The stability inspection\<close>

lemma inspect_step_Inr:
  "check_alpha_validity df l = Inr stats \<Longrightarrow>
     inspect_step df l results =
       results @
         [\<lparr>row_length = l, row_alpha = alpha stats, row_is_valid = is_valid stats,
           row_algo_ret = algo_ret stats, row_buy_hold = buy_hold stats,
           row_trades = total_trades stats\<rparr>]"
  by (simp add: inspect_step_def)

lemma inspect_fold_rows:
  assumes "50 \<le> length df"
  shows "length (fold (inspect_step df) [1..int k] []) = k \<and>
         (\<forall>j<k. \<exists>stats. check_alpha_validity df (int j + 1) = Inr stats \<and>
            fold (inspect_step df) [1..int k] [] ! j =
              \<lparr>row_length = int j + 1, row_alpha = alpha stats, row_is_valid = is_valid stats,
               row_algo_ret = algo_ret stats, row_buy_hold = buy_hold stats,
               row_trades = total_trades stats\<rparr>)"
proof (induction k)
  case 0
  then show ?case by simp
next
  case (Suc k)
  define rows where "rows = fold (inspect_step df) [1..int k] []"
  have IH: "length rows = k"
    "\<forall>j<k. \<exists>stats. check_alpha_validity df (int j + 1) = Inr stats \<and>
            rows ! j =
              \<lparr>row_length = int j + 1, row_alpha = alpha stats, row_is_valid = is_valid stats,
               row_algo_ret = algo_ret stats, row_buy_hold = buy_hold stats,
               row_trades = total_trades stats\<rparr>"
    using Suc.IH by (simp_all add: rows_def)
  obtain stats where stats: "check_alpha_validity df (int k + 1) = Inr stats"
    using check_alpha_validity_total [OF assms, of "int k + 1"] by auto
  have suc: "int (Suc k) = int k + 1"
    by simp
  have split: "[1..int k + 1] = [1..int k] @ [int k + 1]"
    using upto_rec2 [of 1 "int k + 1"] by simp
  have next_rows: "fold (inspect_step df) [1..int k + 1] [] =
          rows @
            [\<lparr>row_length = int k + 1, row_alpha = alpha stats, row_is_valid = is_valid stats,
              row_algo_ret = algo_ret stats, row_buy_hold = buy_hold stats,
              row_trades = total_trades stats\<rparr>]"
    unfolding split fold_append by (simp add: rows_def [symmetric] inspect_step_Inr [OF stats])
  show ?case
    unfolding suc next_rows
  proof (intro conjI allI impI)
    show "length (rows @
            [\<lparr>row_length = int k + 1, row_alpha = alpha stats, row_is_valid = is_valid stats,
              row_algo_ret = algo_ret stats, row_buy_hold = buy_hold stats,
              row_trades = total_trades stats\<rparr>]) = Suc k"
      using IH(1) by simp
  next
    fix j assume "j < Suc k"
    then consider "j < k" | "j = k" by linarith
    then show "\<exists>st. check_alpha_validity df (int j + 1) = Inr st \<and>
            (rows @
              [\<lparr>row_length = int k + 1, row_alpha = alpha stats, row_is_valid = is_valid stats,
                row_algo_ret = algo_ret stats, row_buy_hold = buy_hold stats,
                row_trades = total_trades stats\<rparr>]) ! j =
              \<lparr>row_length = int j + 1, row_alpha = alpha st, row_is_valid = is_valid st,
               row_algo_ret = algo_ret st, row_buy_hold = buy_hold st,
               row_trades = total_trades st\<rparr>"
    proof cases
      case 1
      then show ?thesis using IH by (simp add: nth_append)
    next
      case 2
      then show ?thesis using IH(1) stats by (simp add: nth_append)
    qed
  qed
qed

lemma inspect_fold_lengths:
  assumes "50 \<le> length df"
  shows "map row_length (fold (inspect_step df) [1..int k] []) = [1..int k]"
proof (rule nth_equalityI)
  show "length (map row_length (fold (inspect_step df) [1..int k] [])) = length [1..int k]"
    using inspect_fold_rows [OF assms, of k] by simp
next
  fix j assume "j < length (map row_length (fold (inspect_step df) [1..int k] []))"
  then have j: "j < k"
    using inspect_fold_rows [OF assms, of k] by simp
  then have "row_length (fold (inspect_step df) [1..int k] [] ! j) = int j + 1"
    using inspect_fold_rows [OF assms, of k] by auto
  moreover have "[1..int k] ! j = 1 + int j"
    using j by (intro nth_upto) simp
  ultimately show "map row_length (fold (inspect_step df) [1..int k] []) ! j = [1..int k] ! j"
    using j inspect_fold_rows [OF assms, of k] by simp
qed

text \<open>
  C7: on at least 50 bars \<open>inspect_ticker_stability\<close> returns exactly 40 rows, in ascending
  order of the smoothing length; row \<open>k\<close> (counted from 0) is the row of length \<open>k + 1\<close> and
  carries the statistics \<open>check_alpha_validity\<close> gives for that length. No evaluation of a
  length from 1 to 40 raises on such a series.
\<close>

theorem inspect_ticker_stability_rows:
  assumes "50 \<le> length (get_stock_history ticker days)"
  shows "length (inspect_ticker_stability get_stock_history ticker days) = 40 \<and>
         sorted (map row_length (inspect_ticker_stability get_stock_history ticker days)) \<and>
         (\<forall>k<40. \<exists>stats.
            check_alpha_validity (get_stock_history ticker days) (int k + 1) = Inr stats \<and>
            inspect_ticker_stability get_stock_history ticker days ! k =
              \<lparr>row_length = int k + 1, row_alpha = alpha stats, row_is_valid = is_valid stats,
               row_algo_ret = algo_ret stats, row_buy_hold = buy_hold stats,
               row_trades = total_trades stats\<rparr>)"
proof -
  define df where "df = get_stock_history ticker days"
  define rows where "rows = fold (inspect_step df) [1..int 40] []"
  have len: "50 \<le> length df"
    using assms by (simp add: df_def)
  have lens: "map row_length rows = [1..int 40]"
    unfolding rows_def by (rule inspect_fold_lengths [OF len])
  then have srt: "sorted (map row_length rows)"
    by simp
  have "inspect_ticker_stability get_stock_history ticker days = sort_key row_length rows"
    using len
    by (simp add: inspect_ticker_stability_def df_def [symmetric] rows_def
        DI_LENGTH_MIN_def DI_LENGTH_MAX_def)
  then have out: "inspect_ticker_stability get_stock_history ticker days = rows"
    using sort_key_id_if_sorted [OF srt] by simp
  show ?thesis
    unfolding out df_def [symmetric]
    using inspect_fold_rows [OF len, of 40] srt by (simp add: rows_def)
qed

theorem inspect_ticker_stability_rows_witness:
  "50 \<le> length (example_history ''FPT'' 730) \<and>
   length (inspect_ticker_stability example_history ''FPT'' 730) = 40 \<and>
   row_length (inspect_ticker_stability example_history ''FPT'' 730 ! 6) = 7"
proof -
  have len: "50 \<le> length (example_history ''FPT'' 730)"
    by (simp add: example_history_def example_bars_length)
  note rows = inspect_ticker_stability_rows
    [where get_stock_history = example_history and ticker = "''FPT''" and days = 730, OF len]
  have l40: "length (inspect_ticker_stability example_history ''FPT'' 730) = 40"
    using rows by (rule conjunct1)
  have six: "(6::nat) < 40"
    by simp
  have "row_length (inspect_ticker_stability example_history ''FPT'' 730 ! 6) = 7"
    using rows [THEN conjunct2, THEN conjunct2, rule_format, OF six]
    by (elim exE conjE) simp
  with len l40 show ?thesis
    by simp
qed

subsection \<open>The ranking of a scan\<close>

lemma sort_key_nth_mono:
  fixes f :: "'a \<Rightarrow> 'k::linorder"
  assumes "i < j" "j < length xs"
  shows "f (sort_key f xs ! i) \<le> f (sort_key f xs ! j)"
proof -
  have "sorted (map f (sort_key f xs))"
    by (rule sorted_sort_key)
  moreover have "i < j" "j < length (map f (sort_key f xs))"
    using assms by simp_all
  ultimately have "map f (sort_key f xs) ! i \<le> map f (sort_key f xs) ! j"
    by (simp add: sorted_iff_nth_mono_less)
  then show ?thesis
    using assms by simp
qed

lemma run_scan_sort_key_le:
  assumes "run_scan_sort_key a \<le> run_scan_sort_key b"
  shows "(is_buy_signal b \<and> res_is_valid b \<longrightarrow> is_buy_signal a \<and> res_is_valid a) \<and>
         (res_is_valid b \<longrightarrow> res_is_valid a) \<and>
         ((is_buy_signal a \<and> res_is_valid a) = (is_buy_signal b \<and> res_is_valid b) \<and>
          res_is_valid a = res_is_valid b \<longrightarrow> res_alpha b \<le> res_alpha a)"
  using assms
  by (cases "is_buy_signal a"; cases "res_is_valid a"; cases "is_buy_signal b";
      cases "res_is_valid b")
    (simp_all add: run_scan_sort_key_def)

text \<open>
  C9, as the code has it: the list \<open>run_scan\<close> hands to the tables is a reordering of the
  per-symbol results with the valid buy signals first, then the other valid results, then
  the rest, each of the three groups by alpha descending. The list \<open>scan_vn100\<close> returns is
  a reordering by alpha descending only.
\<close>

theorem scan_ranking:
  assumes "i < j" and "j < length results"
  shows "run_scan get_stock_history tickers =
           rank_results
             (List.map_filter (\<lambda>ticker. analyze_symbol get_stock_history ticker 730) tickers) \<and>
         scan_vn100 get_stock_history (t # tickers) days =
           sort_by_alpha
             (List.map_filter (\<lambda>ticker. analyze_symbol get_stock_history ticker days)
                (t # tickers)) \<and>
         mset (rank_results results) = mset results \<and>
         mset (sort_by_alpha results) = mset results \<and>
         (is_buy_signal (rank_results results ! j) \<and> res_is_valid (rank_results results ! j) \<longrightarrow>
            is_buy_signal (rank_results results ! i) \<and> res_is_valid (rank_results results ! i)) \<and>
         (res_is_valid (rank_results results ! j) \<longrightarrow> res_is_valid (rank_results results ! i)) \<and>
         ((is_buy_signal (rank_results results ! i) \<and> res_is_valid (rank_results results ! i)) =
            (is_buy_signal (rank_results results ! j) \<and> res_is_valid (rank_results results ! j)) \<and>
          res_is_valid (rank_results results ! i) = res_is_valid (rank_results results ! j) \<longrightarrow>
            res_alpha (rank_results results ! j) \<le> res_alpha (rank_results results ! i)) \<and>
         res_alpha (sort_by_alpha results ! j) \<le> res_alpha (sort_by_alpha results ! i)"
proof -
  have "run_scan_sort_key (rank_results results ! i) \<le> run_scan_sort_key (rank_results results ! j)"
    unfolding rank_results_def by (rule sort_key_nth_mono [OF assms])
  note ranked = run_scan_sort_key_le [OF this]
  have "- res_alpha (sort_by_alpha results ! i) \<le> - res_alpha (sort_by_alpha results ! j)"
    unfolding sort_by_alpha_def
    by (rule sort_key_nth_mono [OF assms, of "\<lambda>x. - res_alpha x"])
  then have by_alpha: "res_alpha (sort_by_alpha results ! j) \<le> res_alpha (sort_by_alpha results ! i)"
    by simp
  have perm: "mset (rank_results results) = mset results"
    "mset (sort_by_alpha results) = mset results"
    by (simp_all add: rank_results_def sort_by_alpha_def)
  have defs: "run_scan get_stock_history tickers =
           rank_results
             (List.map_filter (\<lambda>ticker. analyze_symbol get_stock_history ticker 730) tickers)"
    "scan_vn100 get_stock_history (t # tickers) days =
           sort_by_alpha
             (List.map_filter (\<lambda>ticker. analyze_symbol get_stock_history ticker days)
                (t # tickers))"
    by (simp_all add: run_scan_def scan_vn100_def)
  show ?thesis
    using ranked by_alpha perm defs by blast
qed

lemma rank_results_example:
  "rank_results [example_laggard, example_leader] = [example_leader, example_laggard]"
  by (simp add: rank_results_def run_scan_sort_key_def example_laggard_def example_leader_def)

lemma sort_by_alpha_example:
  "sort_by_alpha [example_leader, example_laggard] = [example_laggard, example_leader]"
  by (simp add: sort_by_alpha_def example_laggard_def example_leader_def)

theorem scan_ranking_witness:
  "(0::nat) < 1 \<and> 1 < length [example_laggard, example_leader] \<and>
   rank_results [example_laggard, example_leader] = [example_leader, example_laggard] \<and>
   res_is_valid (rank_results [example_laggard, example_leader] ! 0) \<and>
   res_alpha (sort_by_alpha [example_laggard, example_leader] ! 1) \<le>
     res_alpha (sort_by_alpha [example_laggard, example_leader] ! 0)"
proof -
  have h: "(0::nat) < 1" "1 < length [example_laggard, example_leader]"
    by simp_all
  have "res_is_valid (rank_results [example_laggard, example_leader] ! 0)"
    unfolding rank_results_example by (simp add: example_leader_def)
  with scan_ranking [OF h] rank_results_example h show ?thesis
    by blast
qed

text \<open>
  Ranked by \<open>scan_vn100\<close>, a result that is not valid stands before a valid buy signal when
  its alpha is the higher one.
\<close>

theorem scan_vn100_order_counterexample:
  "sort_by_alpha [example_leader, example_laggard] = [example_laggard, example_leader] \<and>
   \<not> res_is_valid example_laggard \<and> res_is_valid example_leader \<and>
   is_buy_signal example_leader \<and> res_alpha example_leader < res_alpha example_laggard"
  by (simp add: sort_by_alpha_def example_laggard_def example_leader_def)

end
